theory Spec2Isabelle
  imports Main "HOL-Library.Multiset"
begin

section \<open>Tasks\<close>

text \<open>
  A task is a Python dictionary read from JSON. The fields follow the keys the program
  writes in \<^verbatim>\<open>app.py\<close>. A key that the query layer reads with \<^verbatim>\<open>task.get(...)\<close> may be
  absent, so its field is an option (\<open>None\<close>: the key is missing); \<^verbatim>\<open>task["id"]\<close> is only
  ever read by subscript and is an integer (Python integers are unbounded, hence \<open>int\<close>).
  Text is a list of 8-bit characters: the model covers ASCII text.
\<close>

record task =
  task_id :: int
  title :: "string option"
  description :: "string option"
  priority :: "string option"
  category :: "string option"
  due_date :: "string option"
  completed :: "bool option"
  created_at :: "string option"

datatype error =
    FileNotFoundError | IsADirectoryError | NotADirectoryError | PermissionError
  | UnicodeDecodeError | JSONDecodeError | RecursionError | ValueError | KeyError | OtherError

text \<open>\<^verbatim>\<open>d.get(key, default)\<close> on a field that may be missing.\<close>

definition dict_get :: "'a \<Rightarrow> 'a option \<Rightarrow> 'a" where
  "dict_get dflt v = (case v of None \<Rightarrow> dflt | Some x \<Rightarrow> x)"

section \<open>Text operations of Python used by the queries\<close>

text \<open>\<^verbatim>\<open>str.lower()\<close> on ASCII text: the letters A to Z move to a to z.\<close>

definition lower_char :: "char \<Rightarrow> char" where
  "lower_char c =
     (let n = (of_char c :: nat) in if 65 \<le> n \<and> n \<le> 90 then char_of (n + 32) else c)"

definition lower :: "string \<Rightarrow> string" where
  "lower s = map lower_char s"

text \<open>\<^verbatim>\<open>q in s\<close> on text: \<open>q\<close> occurs in \<open>s\<close> as a contiguous piece.\<close>

fun starts_with :: "string \<Rightarrow> string \<Rightarrow> bool" where
  "starts_with [] s = True"
| "starts_with (c # cs) [] = False"
| "starts_with (c # cs) (d # ds) = (c = d \<and> starts_with cs ds)"

fun str_in :: "string \<Rightarrow> string \<Rightarrow> bool" where
  "str_in q [] = (q = [])"
| "str_in q (c # cs) = (starts_with q (c # cs) \<or> str_in q cs)"

text \<open>\<^verbatim>\<open>a < b\<close> on text: lexicographic by character code, a proper prefix being smaller.\<close>

fun str_lt :: "string \<Rightarrow> string \<Rightarrow> bool" where
  "str_lt [] [] = False"
| "str_lt [] (y # ys) = True"
| "str_lt (x # xs) [] = False"
| "str_lt (x # xs) (y # ys) =
     ((of_char x :: nat) < of_char y \<or> (x = y \<and> str_lt xs ys))"

section \<open>Identifier allocation\<close>

text \<open>\<^verbatim>\<open>max(...)\<close> over a non-empty iteration, started at its first item.\<close>

fun py_max :: "int \<Rightarrow> int list \<Rightarrow> int" where
  "py_max m [] = m"
| "py_max m (x # xs) = py_max (if x > m then x else m) xs"

definition generate_unique_id :: "task list \<Rightarrow> int" where
  "generate_unique_id tasks =
     (case tasks of
        [] \<Rightarrow> 1
      | t # ts \<Rightarrow> py_max (task_id t) (map task_id ts) + 1)"

section \<open>Filters and search\<close>

definition filter_tasks_by_priority :: "task list \<Rightarrow> string \<Rightarrow> task list" where
  "filter_tasks_by_priority tasks p = filter (\<lambda>t. priority t = Some p) tasks"

definition filter_tasks_by_category :: "task list \<Rightarrow> string \<Rightarrow> task list" where
  "filter_tasks_by_category tasks c = filter (\<lambda>t. category t = Some c) tasks"

definition filter_tasks_by_completion :: "task list \<Rightarrow> bool \<Rightarrow> task list" where
  "filter_tasks_by_completion tasks b = filter (\<lambda>t. completed t = Some b) tasks"

definition search_tasks :: "task list \<Rightarrow> string \<Rightarrow> task list" where
  "search_tasks tasks query =
     (let q = lower query in
      filter (\<lambda>t. str_in q (lower (dict_get [] (title t)))
                \<or> str_in q (lower (dict_get [] (description t)))) tasks)"

section \<open>Dates\<close>

text \<open>
  A naive \<^verbatim>\<open>datetime\<close> is a point on the proleptic Gregorian calendar with microsecond
  resolution; comparing two of them compares the points, and adding a \<^verbatim>\<open>timedelta\<close> moves the
  point. The model is the number of microseconds since 0001-01-01 00:00:00, so both are
  integer operations. Reference moments are taken at least a day before \<^verbatim>\<open>datetime.max\<close>,
  where the library's addition stays in range.
\<close>

type_synonym datetime = int

definition day_us :: int where
  "day_us = 86400000000"

text \<open>\<^verbatim>\<open>datetime.max\<close> is 9999-12-31 23:59:59.999999, the last microsecond of day 3652059.\<close>

definition datetime_max :: datetime where
  "datetime_max = 3652059 * day_us - 1"

definition is_leap :: "int \<Rightarrow> bool" where
  "is_leap y = (y mod 4 = 0 \<and> (y mod 100 \<noteq> 0 \<or> y mod 400 = 0))"

definition days_before_year :: "int \<Rightarrow> int" where
  "days_before_year year = (let y = year - 1 in y * 365 + y div 4 - y div 100 + y div 400)"

definition days_in_month :: "int \<Rightarrow> int \<Rightarrow> int" where
  "days_in_month y m =
     (if m = 2 then (if is_leap y then 29 else 28)
      else if m = 4 \<or> m = 6 \<or> m = 9 \<or> m = 11 then 30 else 31)"

definition days_before_month :: "int \<Rightarrow> int \<Rightarrow> int" where
  "days_before_month y m =
     [0, 31, 59, 90, 120, 151, 181, 212, 243, 273, 304, 334] ! nat (m - 1)
       + (if m > 2 \<and> is_leap y then 1 else 0)"

text \<open>The day number of a calendar date, 0001-01-01 being day 1.\<close>

definition ymd2ord :: "int \<Rightarrow> int \<Rightarrow> int \<Rightarrow> int" where
  "ymd2ord y m d = days_before_year y + days_before_month y m + d"

text \<open>Midnight of a calendar date; \<open>None\<close> where the constructor raises \<^verbatim>\<open>ValueError\<close>.\<close>

definition mk_datetime :: "int \<Rightarrow> int \<Rightarrow> int \<Rightarrow> datetime option" where
  "mk_datetime y m d =
     (if 1 \<le> y \<and> y \<le> 9999 \<and> 1 \<le> m \<and> m \<le> 12 \<and> 1 \<le> d \<and> d \<le> days_in_month y m
      then Some ((ymd2ord y m d - 1) * day_us) else None)"

subsection \<open>Parsing \<^verbatim>\<open>%Y-%m-%d\<close>\<close>

text \<open>
  \<^verbatim>\<open>datetime.strptime(s, "%Y-%m-%d")\<close> matches \<open>s\<close> from its start against four digits, a
  hyphen, a month written \<^verbatim>\<open>1[0-2]|0[1-9]|[1-9]\<close>, a hyphen and a day written
  \<^verbatim>\<open>3[0-1]|[1-2]\d|0[1-9]|[1-9]| [1-9]\<close>, the alternatives tried in this order; it raises
  \<^verbatim>\<open>ValueError\<close> when nothing matches, when text remains after the match, or when the
  numbers are not a date. \<open>None\<close> stands for the \<^verbatim>\<open>ValueError\<close>.
\<close>

definition is_digit :: "char \<Rightarrow> bool" where
  "is_digit c = (48 \<le> (of_char c :: nat) \<and> (of_char c :: nat) \<le> 57)"

definition digit_val :: "char \<Rightarrow> int" where
  "digit_val c = int (of_char c) - 48"

definition in_range :: "char \<Rightarrow> char \<Rightarrow> char \<Rightarrow> bool" where
  "in_range lo hi c = ((of_char lo :: nat) \<le> of_char c \<and> (of_char c :: nat) \<le> of_char hi)"

text \<open>The month alternatives that match at the start of \<open>s\<close>, each with the text after it.\<close>

definition month_alts :: "string \<Rightarrow> (int \<times> string) list" where
  "month_alts s =
     (case s of
        c1 # c2 # r \<Rightarrow>
          (if c1 = CHR ''1'' \<and> in_range CHR ''0'' CHR ''2'' c2 then [(10 + digit_val c2, r)] else [])
          @ (if c1 = CHR ''0'' \<and> in_range CHR ''1'' CHR ''9'' c2 then [(digit_val c2, r)] else [])
          @ (if in_range CHR ''1'' CHR ''9'' c1 then [(digit_val c1, c2 # r)] else [])
      | [c1] \<Rightarrow> (if in_range CHR ''1'' CHR ''9'' c1 then [(digit_val c1, [])] else [])
      | [] \<Rightarrow> [])"

text \<open>The first day alternative that matches at the start of \<open>s\<close>.\<close>

definition day_match :: "string \<Rightarrow> (int \<times> string) option" where
  "day_match s =
     (case s of
        c1 # c2 # r \<Rightarrow>
          if c1 = CHR ''3'' \<and> in_range CHR ''0'' CHR ''1'' c2 then Some (30 + digit_val c2, r)
          else if in_range CHR ''1'' CHR ''2'' c1 \<and> is_digit c2
            then Some (10 * digit_val c1 + digit_val c2, r)
          else if c1 = CHR ''0'' \<and> in_range CHR ''1'' CHR ''9'' c2 then Some (digit_val c2, r)
          else if in_range CHR ''1'' CHR ''9'' c1 then Some (digit_val c1, c2 # r)
          else if c1 = CHR '' '' \<and> in_range CHR ''1'' CHR ''9'' c2 then Some (digit_val c2, r)
          else None
      | [c1] \<Rightarrow> (if in_range CHR ''1'' CHR ''9'' c1 then Some (digit_val c1, []) else None)
      | [] \<Rightarrow> None)"

fun first_match :: "('a \<Rightarrow> 'b option) \<Rightarrow> 'a list \<Rightarrow> 'b option" where
  "first_match f [] = None"
| "first_match f (x # xs) = (case f x of Some y \<Rightarrow> Some y | None \<Rightarrow> first_match f xs)"

text \<open>The match of the whole pattern: year, month, day and the text left over.\<close>

definition match_ymd :: "string \<Rightarrow> (int \<times> int \<times> int \<times> string) option" where
  "match_ymd s =
     (case s of
        y1 # y2 # y3 # y4 # h # r \<Rightarrow>
          if is_digit y1 \<and> is_digit y2 \<and> is_digit y3 \<and> is_digit y4 \<and> h = CHR ''-''
          then first_match
                 (\<lambda>(m, r1). case r1 of
                      [] \<Rightarrow> None
                    | h2 # r2 \<Rightarrow>
                        if h2 = CHR ''-''
                        then (case day_match r2 of
                                None \<Rightarrow> None
                              | Some (d, r3) \<Rightarrow>
                                  Some (1000 * digit_val y1 + 100 * digit_val y2
                                          + 10 * digit_val y3 + digit_val y4, m, d, r3))
                        else None)
                 (month_alts r)
          else None
      | _ \<Rightarrow> None)"

definition strptime_ymd :: "string \<Rightarrow> datetime option" where
  "strptime_ymd s =
     (case match_ymd s of
        None \<Rightarrow> None
      | Some (y, m, d, rest) \<Rightarrow> if rest \<noteq> [] then None else mk_datetime y m d)"

section \<open>Overdue and due soon\<close>

text \<open>
  \<open>today\<close> is the text \<^verbatim>\<open>datetime.now().strftime("%Y-%m-%d")\<close> and \<open>now\<close> the value of
  \<^verbatim>\<open>datetime.now()\<close>: the clock is an input of the model.
\<close>

definition get_overdue_tasks :: "string \<Rightarrow> task list \<Rightarrow> task list" where
  "get_overdue_tasks today tasks =
     filter (\<lambda>t. \<not> dict_get False (completed t) \<and> str_lt (dict_get [] (due_date t)) today) tasks"

fun due_soon_loop :: "datetime \<Rightarrow> datetime \<Rightarrow> task list \<Rightarrow> task list \<Rightarrow> task list" where
  "due_soon_loop now tomorrow [] due_soon_tasks = due_soon_tasks"
| "due_soon_loop now tomorrow (t # ts) due_soon_tasks =
     (if dict_get False (completed t) then due_soon_loop now tomorrow ts due_soon_tasks
      else
        let due_date_str = dict_get [] (due_date t) in
        if due_date_str \<noteq> [] then
          (case strptime_ymd due_date_str of
             Some d \<Rightarrow>
               if now \<le> d \<and> d \<le> tomorrow
               then due_soon_loop now tomorrow ts (due_soon_tasks @ [t])
               else due_soon_loop now tomorrow ts due_soon_tasks
           | None \<Rightarrow> due_soon_loop now tomorrow ts due_soon_tasks)
        else due_soon_loop now tomorrow ts due_soon_tasks)"

definition get_due_soon_tasks :: "datetime \<Rightarrow> task list \<Rightarrow> task list" where
  "get_due_soon_tasks now tasks = (let tomorrow = now + 1 * day_us in due_soon_loop now tomorrow tasks [])"

section \<open>Sorting\<close>

text \<open>
  \<^verbatim>\<open>sorted(tasks, key=k)\<close> is a stable sort, ascending by key. A stable sort has one possible
  result, the one \<^const>\<open>sort_key\<close> computes.
\<close>

definition priority_order :: "string \<rightharpoonup> int" where
  "priority_order = [''High'' \<mapsto> 1, ''Medium'' \<mapsto> 2, ''Low'' \<mapsto> 3]"

definition priority_key :: "task \<Rightarrow> int" where
  "priority_key t = dict_get 3 (priority_order (dict_get ''Low'' (priority t)))"

definition sort_tasks_by_priority :: "task list \<Rightarrow> task list" where
  "sort_tasks_by_priority tasks = sort_key priority_key tasks"

definition parse_due_date :: "task \<Rightarrow> datetime" where
  "parse_due_date t =
     (case strptime_ymd (dict_get [] (due_date t)) of
        Some d \<Rightarrow> d
      | None \<Rightarrow> datetime_max)"

definition sort_tasks_by_due_date :: "task list \<Rightarrow> task list" where
  "sort_tasks_by_due_date tasks = sort_key parse_due_date tasks"

section \<open>The store\<close>







section \<open>The list shown by the page\<close>

text \<open>
  \<^verbatim>\<open>[task for task in filtered_tasks if not task["completed"]]\<close>: the subscript raises
  \<^verbatim>\<open>KeyError\<close> on a task with no \<^verbatim>\<open>completed\<close> key.
\<close>

fun hide_completed :: "task list \<Rightarrow> error + task list" where
  "hide_completed [] = Inr []"
| "hide_completed (t # ts) =
     (case completed t of
        None \<Rightarrow> Inl KeyError
      | Some c \<Rightarrow>
          (case hide_completed ts of
             Inl e \<Rightarrow> Inl e
           | Inr r \<Rightarrow> Inr (if \<not> c then t # r else r)))"

text \<open>
  Lines 126 to 149 of \<^verbatim>\<open>main\<close>, the widget values being arguments: the filters are
  applied once, the result is overwritten by a fresh copy of the collection, the search is
  applied when the query is not empty, and the filters are applied again.
\<close>

definition shown_tasks ::
  "task list \<Rightarrow> string \<Rightarrow> string \<Rightarrow> bool \<Rightarrow> string \<Rightarrow> error + task list" where
  "shown_tasks tasks filter_category filter_priority show_completed search_query =
     (let filtered_tasks = tasks;
          filtered_tasks = (if filter_category \<noteq> ''All''
                            then filter_tasks_by_category filtered_tasks filter_category
                            else filtered_tasks);
          filtered_tasks = (if filter_priority \<noteq> ''All''
                            then filter_tasks_by_priority filtered_tasks filter_priority
                            else filtered_tasks)
      in case (if \<not> show_completed then hide_completed filtered_tasks else Inr filtered_tasks) of
           Inl e \<Rightarrow> Inl e
         | Inr _ \<Rightarrow>
            (let filtered_tasks = tasks;
                 filtered_tasks = (if search_query \<noteq> []
                                   then search_tasks filtered_tasks search_query
                                   else filtered_tasks);
                 filtered_tasks = (if filter_category \<noteq> ''All''
                                   then filter_tasks_by_category filtered_tasks filter_category
                                   else filtered_tasks);
                 filtered_tasks = (if filter_priority \<noteq> ''All''
                                   then filter_tasks_by_priority filtered_tasks filter_priority
                                   else filtered_tasks)
             in if \<not> show_completed then hide_completed filtered_tasks else Inr filtered_tasks))"

section \<open>Vocabulary of the specification\<close>



text \<open>
  The due date of a task as a timestamp, midnight of the stated day; \<open>None\<close> when the key
  is missing or its text does not parse. A due date is valid when it parses.
\<close>

definition due_of :: "task \<Rightarrow> datetime option" where
  "due_of t = (case due_date t of None \<Rightarrow> None | Some s \<Rightarrow> strptime_ymd s)"

definition valid_due :: "task \<Rightarrow> bool" where
  "valid_due t = (due_of t \<noteq> None)"

text \<open>
  A task is due soon at \<open>now\<close> when it is not completed (a missing flag counts as false,
  as \<^verbatim>\<open>task.get("completed", False)\<close> reads it) and its due date parses to a timestamp in
  the closed interval from \<open>now\<close> to 24 hours later.
\<close>

definition due_soon :: "datetime \<Rightarrow> task \<Rightarrow> bool" where
  "due_soon now t =
     (completed t \<noteq> Some True
      \<and> (case due_of t of
            None \<Rightarrow> False
          | Some d \<Rightarrow> now \<le> d \<and> d \<le> now + 24 * 60 * 60 * 1000000))"

text \<open>
  The three priority classes of the sort: High, Medium, and everything else, which is Low,
  a missing priority and a priority that is none of the three names.
\<close>

definition is_high :: "task \<Rightarrow> bool" where
  "is_high t = (priority t = Some ''High'')"

definition is_medium :: "task \<Rightarrow> bool" where
  "is_medium t = (priority t = Some ''Medium'')"

definition is_low :: "task \<Rightarrow> bool" where
  "is_low t = (priority t \<noteq> Some ''High'' \<and> priority t \<noteq> Some ''Medium'')"

text \<open>The three filters of the page, each switched off by its widget.\<close>

definition by_category :: "string \<Rightarrow> task list \<Rightarrow> task list" where
  "by_category c ts = (if c = ''All'' then ts else filter_tasks_by_category ts c)"

definition by_priority :: "string \<Rightarrow> task list \<Rightarrow> task list" where
  "by_priority p ts = (if p = ''All'' then ts else filter_tasks_by_priority ts p)"

definition by_visibility :: "bool \<Rightarrow> task list \<Rightarrow> task list" where
  "by_visibility show_completed ts =
     (if show_completed then ts else filter (\<lambda>t. completed t = Some False) ts)"

section \<open>Sample collection\<close>

text \<open>
  The two tasks of the test suite's fixture, read on 2026-11-04, and three further tasks:
  one with no \<^verbatim>\<open>due_date\<close> key, one whose due date is written month first, one completed.
\<close>

definition sample_one :: task where
  "sample_one =
     \<lparr>task_id = 1, title = Some ''Task One'', description = Some ''First task'',
      priority = Some ''High'', category = Some ''Work'', due_date = Some ''2026-11-05'',
      completed = Some False, created_at = Some ''2026-11-04 09:00:00''\<rparr>"

definition sample_two :: task where
  "sample_two =
     \<lparr>task_id = 2, title = Some ''Task Two'', description = Some ''Second task'',
      priority = Some ''Low'', category = Some ''Personal'', due_date = Some ''2026-11-03'',
      completed = Some False, created_at = Some ''2026-11-04 09:00:00''\<rparr>"

definition sample_undated :: task where
  "sample_undated =
     \<lparr>task_id = 3, title = Some ''Call home'', description = Some ''No date yet'',
      priority = None, category = Some ''Personal'', due_date = None,
      completed = Some False, created_at = Some ''2026-11-04 09:00:00''\<rparr>"

definition sample_malformed :: task where
  "sample_malformed =
     \<lparr>task_id = 4, title = Some ''Renew pass'', description = Some ''At the office'',
      priority = Some ''Medium'', category = Some ''Other'', due_date = Some ''11/30/2026'',
      completed = Some False, created_at = Some ''2026-11-04 09:00:00''\<rparr>"

definition sample_done :: task where
  "sample_done =
     \<lparr>task_id = 5, title = Some ''Read task list'', description = Some ''Done already'',
      priority = Some ''Urgent'', category = Some ''Work'', due_date = Some ''2026-11-05'',
      completed = Some True, created_at = Some ''2026-11-04 09:00:00''\<rparr>"

definition sample_tasks :: "task list" where
  "sample_tasks = [sample_undated, sample_one, sample_malformed, sample_two, sample_done]"

text \<open>2026-11-04 09:00:00, in microseconds since 0001-01-01 00:00:00.\<close>

definition morning :: datetime where
  "morning = 63929379600000000"




section \<open>Properties of the text operations\<close>



lemma str_in_empty: "str_in [] s"
  by (cases s) simp_all


section \<open>Search is a case-insensitive substring filter\<close>

text \<open>
  C10: for every task list, searching with the empty query returns the whole list
  unchanged; the search function itself filters nothing out on an empty query.
\<close>

theorem search_tasks_empty_query: "search_tasks tasks [] = tasks"
  by (simp add: search_tasks_def lower_def str_in_empty)





section \<open>The allocated identifier is fresh\<close>

lemma py_max_fold: "py_max m xs = fold max xs m"
proof (induction xs arbitrary: m)
  case Nil
  then show ?case by simp
next
  case (Cons x xs)
  have "(if m < x then x else m) = max x m" by (simp add: max_def)
  with Cons show ?case by simp
qed

lemma py_max_Max: "py_max m xs = Max (insert m (set xs))"
  using Max.set_eq_fold [of m xs] by (simp add: py_max_fold)

lemma generate_unique_id_nonempty:
  "tasks \<noteq> [] \<Longrightarrow> generate_unique_id tasks = 1 + Max (task_id ` set tasks)"
  by (cases tasks) (simp_all add: generate_unique_id_def py_max_Max)

lemma generate_unique_id_above:
  assumes "t \<in> set tasks"
  shows "task_id t < generate_unique_id tasks"
proof -
  from assms have ne: "tasks \<noteq> []" by auto
  have "task_id t \<le> Max (task_id ` set tasks)" using assms by simp
  then show ?thesis using generate_unique_id_nonempty [OF ne] by simp
qed

text \<open>
  C3: the new id is 1 for the empty list and otherwise one more than the greatest id in
  the list; it differs from the id of every task in the list.
\<close>

theorem generate_unique_id_spec:
  "generate_unique_id [] = 1
   \<and> (tasks \<noteq> [] \<longrightarrow> generate_unique_id tasks = 1 + Max (task_id ` set tasks))
   \<and> (\<forall>t \<in> set tasks. task_id t \<noteq> generate_unique_id tasks)"
proof (intro conjI)
  show "generate_unique_id [] = 1" by (simp add: generate_unique_id_def)
  show "tasks \<noteq> [] \<longrightarrow> generate_unique_id tasks = 1 + Max (task_id ` set tasks)"
    by (simp add: generate_unique_id_nonempty)
  show "\<forall>t \<in> set tasks. task_id t \<noteq> generate_unique_id tasks"
    using generate_unique_id_above by fastforce
qed

theorem generate_unique_id_spec_witness:
  "[sample_two, sample_done, sample_one] \<noteq> []
   \<and> generate_unique_id [sample_two, sample_done, sample_one] = 6
   \<and> 1 + Max (task_id ` set [sample_two, sample_done, sample_one]) = 6
   \<and> task_id sample_two \<noteq> 6 \<and> task_id sample_done \<noteq> 6 \<and> task_id sample_one \<noteq> 6"
proof -
  have v: "generate_unique_id [sample_two, sample_done, sample_one] = 6" by code_simp
  from generate_unique_id_spec [of "[sample_two, sample_done, sample_one]"] v
  show ?thesis by simp
qed

section \<open>Stable sorting by a key\<close>

lemma sort_key_same:
  assumes "\<forall>x \<in> set xs. f x = k"
  shows "sort_key f xs = xs"
proof -
  have "filter (\<lambda>y. f y = k) (sort_key f xs) = sort_key f xs"
    using assms by (simp add: filter_id_conv)
  moreover have "filter (\<lambda>y. f y = k) xs = xs"
    using assms by (simp add: filter_id_conv)
  ultimately show ?thesis using sort_key_stable [of f k xs] by simp
qed

lemma filter_key_below:
  fixes f :: "'a \<Rightarrow> 'b::linorder"
  assumes "f k < c"
  shows "filter (\<lambda>x. f k = f x) (filter (\<lambda>x. f x < c) xs) = filter (\<lambda>x. f k = f x) xs"
    and "filter (\<lambda>x. f k = f x) (filter (\<lambda>x. \<not> f x < c) xs) = []"
  using assms by (induction xs) auto

lemma filter_key_above:
  fixes f :: "'a \<Rightarrow> 'b::linorder"
  assumes "\<not> f k < c"
  shows "filter (\<lambda>x. f k = f x) (filter (\<lambda>x. f x < c) xs) = []"
    and "filter (\<lambda>x. f k = f x) (filter (\<lambda>x. \<not> f x < c) xs) = filter (\<lambda>x. f k = f x) xs"
  using assms by (induction xs) auto

lemma filter_key_sort:
  "filter (\<lambda>x. f k = f x) (sort_key f xs) = filter (\<lambda>x. f k = f x) xs"
proof -
  have "(\<lambda>x. f k = f x) = (\<lambda>x. f x = f k)" by auto
  then show ?thesis using sort_key_stable [of f "f k" xs] by simp
qed

lemma sort_key_split:
  fixes f :: "'a \<Rightarrow> 'b::linorder"
  shows "sort_key f xs =
    sort_key f (filter (\<lambda>x. f x < c) xs) @ sort_key f (filter (\<lambda>x. \<not> f x < c) xs)"
proof (rule properties_for_sort_key)
  show "mset (sort_key f (filter (\<lambda>x. f x < c) xs) @ sort_key f (filter (\<lambda>x. \<not> f x < c) xs))
      = mset xs"
    by simp
next
  fix k
  show "filter (\<lambda>x. f k = f x)
          (sort_key f (filter (\<lambda>x. f x < c) xs) @ sort_key f (filter (\<lambda>x. \<not> f x < c) xs))
        = filter (\<lambda>x. f k = f x) xs"
  proof (cases "f k < c")
    case True
    show ?thesis
      by (simp only: filter_append filter_key_sort filter_key_below [where f = f and k = k and c = c, OF True] append_Nil2)
  next
    case False
    show ?thesis
      by (simp only: filter_append filter_key_sort filter_key_above [where f = f and k = k and c = c, OF False] append_Nil)
  qed
next
  show "sorted (map f
          (sort_key f (filter (\<lambda>x. f x < c) xs) @ sort_key f (filter (\<lambda>x. \<not> f x < c) xs)))"
    by (auto simp: sorted_append)
qed

section \<open>Sorting by priority\<close>

lemma priority_key_cases:
  "priority_key t =
     (if priority t = Some ''High'' then 1 else if priority t = Some ''Medium'' then 2 else 3)"
  by (cases "priority t") (auto simp: priority_key_def priority_order_def dict_get_def)

lemma sort_tasks_by_priority_segments:
  "sort_tasks_by_priority tasks = filter is_high tasks @ filter is_medium tasks @ filter is_low tasks"
proof -
  let ?f = priority_key
  have hi: "filter (\<lambda>x. ?f x < 2) tasks = filter is_high tasks"
    by (rule filter_cong) (auto simp: priority_key_cases is_high_def)
  have me: "filter (\<lambda>x. ?f x < 3) (filter (\<lambda>x. \<not> ?f x < 2) tasks) = filter is_medium tasks"
    unfolding filter_filter by (rule filter_cong) (auto simp: priority_key_cases is_medium_def)
  have lo: "filter (\<lambda>x. \<not> ?f x < 3) (filter (\<lambda>x. \<not> ?f x < 2) tasks) = filter is_low tasks"
    unfolding filter_filter by (rule filter_cong) (auto simp: priority_key_cases is_low_def)
  have s1: "sort_key ?f (filter is_high tasks) = filter is_high tasks"
    by (rule sort_key_same [where k = 1]) (simp add: priority_key_cases is_high_def)
  have s2: "sort_key ?f (filter is_medium tasks) = filter is_medium tasks"
    by (rule sort_key_same [where k = 2]) (simp add: priority_key_cases is_medium_def)
  have s3: "sort_key ?f (filter is_low tasks) = filter is_low tasks"
    by (rule sort_key_same [where k = 3]) (simp add: priority_key_cases is_low_def)
  have "sort_key ?f tasks
      = sort_key ?f (filter (\<lambda>x. ?f x < 2) tasks) @ sort_key ?f (filter (\<lambda>x. \<not> ?f x < 2) tasks)"
    by (rule sort_key_split)
  also have "sort_key ?f (filter (\<lambda>x. \<not> ?f x < 2) tasks)
      = sort_key ?f (filter (\<lambda>x. ?f x < 3) (filter (\<lambda>x. \<not> ?f x < 2) tasks))
        @ sort_key ?f (filter (\<lambda>x. \<not> ?f x < 3) (filter (\<lambda>x. \<not> ?f x < 2) tasks))"
    by (rule sort_key_split)
  finally show ?thesis
    by (simp only: hi me lo s1 s2 s3 sort_tasks_by_priority_def)
qed

text \<open>
  C8: for every task list, the sort by priority is a stable sort that puts every High
  task before every Medium task and every Medium task before every other task, a task
  with a missing or unrecognised priority being ordered as if it were Low: the result is
  the High tasks, then the Medium tasks, then the remaining tasks (Low, missing and
  unrecognised together), each group in the order of the input.
\<close>

theorem sort_tasks_by_priority_spec:
  "sort_tasks_by_priority tasks
     = filter is_high tasks @ filter is_medium tasks @ filter is_low tasks"
  by (rule sort_tasks_by_priority_segments)

theorem sort_tasks_by_priority_spec_witness:
  "sort_tasks_by_priority sample_tasks
     = [sample_one, sample_malformed, sample_undated, sample_two, sample_done]"
proof -
  have "filter is_high sample_tasks @ filter is_medium sample_tasks @ filter is_low sample_tasks
        = [sample_one, sample_malformed, sample_undated, sample_two, sample_done]"
    by code_simp
  with sort_tasks_by_priority_spec [of sample_tasks] show ?thesis by simp
qed

section \<open>Parsed dates lie before the greatest timestamp\<close>

lemma days_before_year_last: "days_before_year 9999 = 3651694"
  by (simp add: days_before_year_def)

lemma not_leap_last: "\<not> is_leap 9999"
  by (simp add: is_leap_def)

lemma days_before_year_early:
  assumes "1 \<le> y" "y \<le> 9998"
  shows "days_before_year y \<le> 3651428"
proof -
  define z where "z = y - 1"
  define a where "a = z div 4"
  define b where "b = z div 100"
  define c where "c = z div 400"
  have z: "0 \<le> z" "z \<le> 9997" using assms by (simp_all add: z_def)
  have "a \<le> 9997 div 4" unfolding a_def using z(2) by (rule zdiv_mono1) simp
  then have a: "a \<le> 2499" by simp
  have "c \<le> 9997 div 400" unfolding c_def using z(2) by (rule zdiv_mono1) simp
  then have c: "c \<le> 24" by simp
  have b: "0 \<le> b" unfolding b_def using z(1) by (simp add: pos_imp_zdiv_nonneg_iff)
  have "days_before_year y = z * 365 + a - b + c"
    by (simp add: days_before_year_def Let_def z_def a_def b_def c_def)
  with z a b c show ?thesis by linarith
qed

lemma days_before_year_bound:
  assumes "1 \<le> y" "y \<le> 9999"
  shows "days_before_year y + (if is_leap y then 366 else 365) \<le> 3652059"
proof (cases "y = 9999")
  case True
  then show ?thesis by (simp add: days_before_year_last not_leap_last)
next
  case False
  with assms have "y \<le> 9998" by simp
  from days_before_year_early [OF assms(1) this] show ?thesis by simp
qed

lemma month_cases:
  assumes "1 \<le> (m::int)" "m \<le> 12"
  shows "m = 1 \<or> m = 2 \<or> m = 3 \<or> m = 4 \<or> m = 5 \<or> m = 6 \<or> m = 7 \<or> m = 8 \<or> m = 9
         \<or> m = 10 \<or> m = 11 \<or> m = 12"
  using assms by arith

lemma day_of_year_bound:
  assumes "1 \<le> m" "m \<le> 12" "d \<le> days_in_month y m"
  shows "days_before_month y m + d \<le> (if is_leap y then 366 else 365)"
  using month_cases [OF assms(1,2)] assms(3)
  by (auto simp: days_before_month_def days_in_month_def)

lemma ymd2ord_bound:
  assumes "1 \<le> y" "y \<le> 9999" "1 \<le> m" "m \<le> 12" "d \<le> days_in_month y m"
  shows "ymd2ord y m d \<le> 3652059"
  using days_before_year_bound [OF assms(1,2)] day_of_year_bound [OF assms(3,4,5)]
  by (simp add: ymd2ord_def split: if_splits)

lemma mk_datetime_bound:
  assumes "mk_datetime y m d = Some x"
  shows "x < datetime_max"
proof -
  from assms have c: "1 \<le> y" "y \<le> 9999" "1 \<le> m" "m \<le> 12" "d \<le> days_in_month y m"
    and x: "x = (ymd2ord y m d - 1) * day_us"
    by (auto simp: mk_datetime_def split: if_splits)
  from ymd2ord_bound [OF c] have "ymd2ord y m d - 1 \<le> 3652058" by simp
  then have "(ymd2ord y m d - 1) * day_us \<le> 3652058 * day_us"
    by (simp add: day_us_def)
  then show ?thesis by (simp add: x datetime_max_def day_us_def)
qed

lemma strptime_ymd_bound:
  assumes "strptime_ymd s = Some x"
  shows "x < datetime_max"
  using assms mk_datetime_bound
  by (auto simp: strptime_ymd_def split: option.splits prod.splits if_splits)

lemma strptime_ymd_empty: "strptime_ymd [] = None"
  by (simp add: strptime_ymd_def match_ymd_def)

section \<open>Due soon\<close>

lemma due_of_get: "strptime_ymd (dict_get [] (due_date t)) = due_of t"
  by (cases "due_date t") (simp_all add: due_of_def dict_get_def strptime_ymd_empty)

lemma due_soon_loop_filter:
  "due_soon_loop now (now + day_us) ts acc = acc @ filter (due_soon now) ts"
proof (induction ts arbitrary: acc)
  case Nil
  then show ?case by simp
next
  case (Cons t ts)
  show ?case
  proof (cases "dict_get False (completed t)")
    case True
    then have "completed t = Some True"
      by (cases "completed t") (simp_all add: dict_get_def)
    then have "\<not> due_soon now t" by (simp add: due_soon_def)
    with True Cons.IH show ?thesis by simp
  next
    case False
    then have nc: "completed t \<noteq> Some True" by (auto simp: dict_get_def)
    show ?thesis
    proof (cases "due_of t")
      case None
      then have "\<not> due_soon now t" by (simp add: due_soon_def)
      with False None Cons.IH show ?thesis by (simp add: Let_def due_of_get)
    next
      case (Some d)
      then have ne: "dict_get [] (due_date t) \<noteq> []"
        using due_of_get [of t] strptime_ymd_empty by auto
      have "due_soon now t \<longleftrightarrow> now \<le> d \<and> d \<le> now + day_us"
        using nc Some by (simp add: due_soon_def day_us_def)
      with False Some ne Cons.IH show ?thesis by (simp add: Let_def due_of_get)
    qed
  qed
qed

text \<open>
  C6: for every task list and reference moment, the due-soon query returns exactly the
  tasks, in their order, that are not completed and whose due date parses to a timestamp
  (midnight of the stated day) in the closed interval from the reference moment to 24
  hours later; a task whose due date is missing or malformed, and a completed task, is
  never in the result. The query is a total function: a date that does not parse is
  skipped, nothing is raised.
\<close>

theorem get_due_soon_tasks_spec:
  "get_due_soon_tasks now tasks = filter (due_soon now) tasks
   \<and> (\<forall>t \<in> set tasks. \<not> valid_due t \<or> completed t = Some True
          \<longrightarrow> t \<notin> set (get_due_soon_tasks now tasks))"
proof -
  have eq: "get_due_soon_tasks now tasks = filter (due_soon now) tasks"
    by (simp add: get_due_soon_tasks_def Let_def due_soon_loop_filter)
  moreover have "\<forall>t \<in> set tasks. \<not> valid_due t \<or> completed t = Some True \<longrightarrow> \<not> due_soon now t"
    by (auto simp: due_soon_def valid_due_def)
  ultimately show ?thesis by simp
qed

theorem get_due_soon_tasks_spec_witness:
  "get_due_soon_tasks morning sample_tasks = [sample_one]
   \<and> \<not> valid_due sample_malformed
   \<and> sample_malformed \<notin> set (get_due_soon_tasks morning sample_tasks)
   \<and> completed sample_done = Some True
   \<and> sample_done \<notin> set (get_due_soon_tasks morning sample_tasks)"
proof -
  have f: "filter (due_soon morning) sample_tasks = [sample_one]" by code_simp
  have m: "sample_malformed \<in> set sample_tasks" and d: "sample_done \<in> set sample_tasks"
    by (simp_all add: sample_tasks_def)
  have nv: "\<not> valid_due sample_malformed" by code_simp
  have c: "completed sample_done = Some True" by (simp add: sample_done_def)
  note spec = get_due_soon_tasks_spec [of morning sample_tasks]
  from spec f have r: "get_due_soon_tasks morning sample_tasks = [sample_one]" by simp
  from spec m nv have 1: "sample_malformed \<notin> set (get_due_soon_tasks morning sample_tasks)"
    by blast
  from spec d c have 2: "sample_done \<notin> set (get_due_soon_tasks morning sample_tasks)"
    by blast
  from r nv 1 c 2 show ?thesis by blast
qed

section \<open>Sorting by due date\<close>

lemma parse_due_date_valid: "valid_due t \<Longrightarrow> parse_due_date t = the (due_of t)"
  by (auto simp: parse_due_date_def due_of_get valid_due_def)

lemma parse_due_date_invalid: "\<not> valid_due t \<Longrightarrow> parse_due_date t = datetime_max"
  by (auto simp: parse_due_date_def due_of_get valid_due_def)

lemma due_of_bound: "due_of t = Some d \<Longrightarrow> d < datetime_max"
  by (auto simp: due_of_def strptime_ymd_bound split: option.splits)

lemma valid_due_iff: "valid_due t \<longleftrightarrow> parse_due_date t < datetime_max"
proof
  assume v: "valid_due t"
  then obtain d where "due_of t = Some d" by (auto simp: valid_due_def)
  then show "parse_due_date t < datetime_max"
    using parse_due_date_valid [OF v] due_of_bound by simp
next
  assume "parse_due_date t < datetime_max"
  then show "valid_due t" using parse_due_date_invalid by fastforce
qed

lemma insort_key_agree:
  assumes "f x = g x" "\<forall>y \<in> set xs. f y = g y"
  shows "insort_key f x xs = insort_key g x xs"
  using assms by (induction xs) auto

lemma sort_key_agree:
  assumes "\<forall>y \<in> set xs. f y = g y"
  shows "sort_key f xs = sort_key g xs"
  using assms
proof (induction xs)
  case Nil
  then show ?case by simp
next
  case (Cons x xs)
  then have "sort_key f xs = sort_key g xs" by simp
  moreover have "insort_key f x (sort_key g xs) = insort_key g x (sort_key g xs)"
    using Cons.prems by (intro insort_key_agree) simp_all
  ultimately show ?case by simp
qed

lemma sort_tasks_by_due_date_segments:
  "sort_tasks_by_due_date tasks =
     sort_key (\<lambda>t. the (due_of t)) (filter valid_due tasks) @ filter (\<lambda>t. \<not> valid_due t) tasks"
proof -
  let ?f = parse_due_date
  have v: "filter (\<lambda>t. ?f t < datetime_max) tasks = filter valid_due tasks"
    by (rule filter_cong) (simp_all add: valid_due_iff)
  have i: "filter (\<lambda>t. \<not> ?f t < datetime_max) tasks = filter (\<lambda>t. \<not> valid_due t) tasks"
    by (rule filter_cong) (simp_all add: valid_due_iff)
  have s1: "sort_key ?f (filter valid_due tasks)
      = sort_key (\<lambda>t. the (due_of t)) (filter valid_due tasks)"
    by (rule sort_key_agree) (simp add: parse_due_date_valid)
  have s2: "sort_key ?f (filter (\<lambda>t. \<not> valid_due t) tasks) = filter (\<lambda>t. \<not> valid_due t) tasks"
    by (rule sort_key_same [where k = datetime_max]) (simp add: parse_due_date_invalid)
  have "sort_key ?f tasks = sort_key ?f (filter (\<lambda>t. ?f t < datetime_max) tasks)
      @ sort_key ?f (filter (\<lambda>t. \<not> ?f t < datetime_max) tasks)"
    by (rule sort_key_split)
  then show ?thesis by (simp only: v i s1 s2 sort_tasks_by_due_date_def)
qed

text \<open>
  C7: for every task list, the sort by due date is a stable sort, ascending by parsed
  due date, in which every task with a missing or malformed due date comes after every
  task with a valid one, the tasks with invalid dates keeping their order. The result is
  the valid-dated tasks, stably sorted by date, followed by the others as they were; its
  valid part is ascending; tasks with the same date keep their order; the result is a
  rearrangement of the input.
\<close>

theorem sort_tasks_by_due_date_spec:
  "sort_tasks_by_due_date tasks
     = sort_key (\<lambda>t. the (due_of t)) (filter valid_due tasks) @ filter (\<lambda>t. \<not> valid_due t) tasks
   \<and> sorted (map (\<lambda>t. the (due_of t)) (filter valid_due (sort_tasks_by_due_date tasks)))
   \<and> (\<forall>d. filter (\<lambda>t. due_of t = Some d) (sort_tasks_by_due_date tasks)
            = filter (\<lambda>t. due_of t = Some d) tasks)
   \<and> filter (\<lambda>t. \<not> valid_due t) (sort_tasks_by_due_date tasks) = filter (\<lambda>t. \<not> valid_due t) tasks
   \<and> sort_tasks_by_due_date tasks
        = filter valid_due (sort_tasks_by_due_date tasks)
          @ filter (\<lambda>t. \<not> valid_due t) (sort_tasks_by_due_date tasks)
   \<and> mset (sort_tasks_by_due_date tasks) = mset tasks"
proof -
  let ?g = "\<lambda>t. the (due_of t)"
  let ?V = "sort_key ?g (filter valid_due tasks)"
  let ?I = "filter (\<lambda>t. \<not> valid_due t) tasks"
  let ?R = "sort_tasks_by_due_date tasks"
  have seg: "?R = ?V @ ?I" by (rule sort_tasks_by_due_date_segments)
  have vV: "filter valid_due ?V = ?V" by (simp add: filter_id_conv)
  have vI: "filter valid_due ?I = []" by (simp add: filter_empty_conv)
  have iV: "filter (\<lambda>t. \<not> valid_due t) ?V = []" by (simp add: filter_empty_conv)
  have iI: "filter (\<lambda>t. \<not> valid_due t) ?I = ?I" by (simp add: filter_id_conv)
  have valid: "filter valid_due ?R = ?V" by (simp only: seg filter_append vV vI append_Nil2)
  have invalid: "filter (\<lambda>t. \<not> valid_due t) ?R = ?I"
    by (simp only: seg filter_append iV iI append_Nil)
  have asc: "sorted (map ?g (filter valid_due ?R))" by (simp only: valid sorted_sort_key)
  have stable: "filter (\<lambda>t. due_of t = Some d) ?R = filter (\<lambda>t. due_of t = Some d) tasks" for d
  proof -
    let ?P = "\<lambda>t. due_of t = Some d"
    have "filter ?P ?V = sort_key ?g (filter ?P (filter valid_due tasks))"
      by (rule filter_sort)
    also have "\<dots> = filter ?P (filter valid_due tasks)"
      by (rule sort_key_same [where k = d]) simp
    also have "\<dots> = filter ?P tasks"
      unfolding filter_filter by (rule filter_cong) (auto simp: valid_due_def)
    finally have a: "filter ?P ?V = filter ?P tasks" .
    have b: "filter ?P ?I = []" by (auto simp: filter_empty_conv valid_due_def)
    show ?thesis by (simp only: seg filter_append a b append_Nil2)
  qed
  have split: "?R = filter valid_due ?R @ filter (\<lambda>t. \<not> valid_due t) ?R"
    by (simp only: valid invalid) (rule seg)
  have perm: "mset ?R = mset tasks" by (simp add: sort_tasks_by_due_date_def)
  from seg asc stable invalid split perm show ?thesis by blast
qed

theorem sort_tasks_by_due_date_spec_witness:
  "sort_tasks_by_due_date sample_tasks
     = [sample_two, sample_one, sample_done, sample_undated, sample_malformed]"
proof -
  have "sort_key (\<lambda>t. the (due_of t)) (filter valid_due sample_tasks)
          @ filter (\<lambda>t. \<not> valid_due t) sample_tasks
        = [sample_two, sample_one, sample_done, sample_undated, sample_malformed]"
    by code_simp
  with sort_tasks_by_due_date_spec [of sample_tasks] show ?thesis by simp
qed

section \<open>Search comes before the filters\<close>

lemma hide_completed_total:
  assumes "\<forall>t \<in> set ts. completed t \<noteq> None"
  shows "hide_completed ts = Inr (filter (\<lambda>t. completed t = Some False) ts)"
  using assms by (induction ts) auto

lemma set_by_category: "set (by_category c ts) \<subseteq> set ts"
  by (auto simp: by_category_def filter_tasks_by_category_def)

lemma set_by_priority: "set (by_priority p ts) \<subseteq> set ts"
  by (auto simp: by_priority_def filter_tasks_by_priority_def)

lemma set_search_tasks: "set (search_tasks ts q) \<subseteq> set ts"
  by (auto simp: search_tasks_def Let_def)

lemma visible_total:
  assumes "\<forall>t \<in> set ts. completed t \<noteq> None"
  shows "(if \<not> show_completed then hide_completed ts else Inr ts) = Inr (by_visibility show_completed ts)"
  using hide_completed_total [OF assms] by (simp add: by_visibility_def)

text \<open>
  C2: for every task list in which each task has its \<^verbatim>\<open>completed\<close> key, and every
  non-empty search query with any category, priority and show-completed settings, the
  page shows the search of the whole collection, then filtered by category, by priority
  and by visibility of completed tasks; what the filters computed before the search is
  discarded.
\<close>

theorem shown_tasks_spec:
  assumes "search_query \<noteq> []" and "\<forall>t \<in> set tasks. completed t \<noteq> None"
  shows "shown_tasks tasks filter_category filter_priority show_completed search_query
    = Inr (by_visibility show_completed
            (by_priority filter_priority
              (by_category filter_category (search_tasks tasks search_query))))"
proof -
  let ?first = "by_priority filter_priority (by_category filter_category tasks)"
  let ?second = "by_priority filter_priority
                   (by_category filter_category (search_tasks tasks search_query))"
  have "\<forall>t \<in> set ?first. completed t \<noteq> None"
    using assms(2) set_by_priority set_by_category by blast
  then have first: "(if \<not> show_completed then hide_completed ?first else Inr ?first)
      = Inr (by_visibility show_completed ?first)"
    by (rule visible_total)
  have "\<forall>t \<in> set ?second. completed t \<noteq> None"
    using assms(2) set_by_priority set_by_category set_search_tasks by blast
  then have second: "(if \<not> show_completed then hide_completed ?second else Inr ?second)
      = Inr (by_visibility show_completed ?second)"
    by (rule visible_total)
  have c: "(if filter_category \<noteq> ''All'' then filter_tasks_by_category ts filter_category else ts)
      = by_category filter_category ts" for ts
    by (simp add: by_category_def)
  have p: "(if filter_priority \<noteq> ''All'' then filter_tasks_by_priority ts filter_priority else ts)
      = by_priority filter_priority ts" for ts
    by (simp add: by_priority_def)
  have q: "(if search_query \<noteq> [] then search_tasks tasks search_query else tasks)
      = search_tasks tasks search_query"
    using assms(1) by simp
  show ?thesis
    unfolding shown_tasks_def Let_def c p q first second by simp
qed

theorem shown_tasks_spec_witness:
  "''task'' \<noteq> []
   \<and> shown_tasks sample_tasks ''Work'' ''All'' False ''task'' = Inr [sample_one]"
proof -
  have q: "''task'' \<noteq> []" by simp
  have c: "\<forall>t \<in> set sample_tasks. completed t \<noteq> None" by code_simp
  have "by_visibility False (by_priority ''All'' (by_category ''Work'' (search_tasks sample_tasks ''task'')))
        = [sample_one]"
    by code_simp
  with shown_tasks_spec [OF q c, of "''Work''" "''All''" False] show ?thesis by simp
qed

section \<open>Round trip and tolerance of the store\<close>





section \<open>Overdue tasks\<close>

text \<open>
  C1: the overdue query does not leave out the tasks with a missing or malformed due
  date. It compares the text of the due date with the text of today's date and parses
  nothing; a missing date is the empty text, which is smaller than every date. On
  2026-11-04 the task with no \<^verbatim>\<open>due_date\<close> key and the task due \<^verbatim>\<open>11/30/2026\<close>, neither
  completed and neither with a date that parses, are returned as overdue beside the task
  due the day before.
\<close>

theorem get_overdue_tasks_undated:
  "due_date sample_undated = None
   \<and> completed sample_undated = Some False
   \<and> due_of sample_malformed = None
   \<and> completed sample_malformed = Some False
   \<and> get_overdue_tasks ''2026-11-04'' sample_tasks
       = [sample_undated, sample_malformed, sample_two]"
  by code_simp

end
